theory Spec2Isabelle
  imports Complex_Main "HOL-Library.Word" "HOL-Library.Log_Nat"
begin

section \<open>The order manager of OrderManager.cpp\<close>

text \<open>
  The embedding follows \<^verbatim>\<open>src/OrderManager/OrderManager.cpp\<close>, the one file that
  defines the handlers. \<^verbatim>\<open>OrderManager.h\<close> declares the same classes without the handler
  bodies, and a pair \<^verbatim>\<open>pov_min\<close>, \<^verbatim>\<open>pov_max\<close> in place of \<^verbatim>\<open>pov\<close>; no definition of
  its \<^verbatim>\<open>updatePOV\<close> exists, so the aggregate modelled is the \<^verbatim>\<open>pov\<close> of the .cpp file.

  \<^item> \<^verbatim>\<open>int\<close> is a 32-bit word. \<open>+\<close> and \<open>-\<close> wrap around (two's complement, what the
    usual targets do where C++ leaves signed overflow undefined); \<open>sint\<close> reads the
    signed value for comparisons with 0 and for the conversion to \<^verbatim>\<open>double\<close>.
  \<^item> \<^verbatim>\<open>double\<close> and \<^verbatim>\<open>long double\<close> are values of \<open>fp\<close>: a finite real, an infinity or
    NaN. A product is rounded to \<^verbatim>\<open>double\<close> (binary64) and a sum into \<^verbatim>\<open>cov\<close> to
    \<^verbatim>\<open>long double\<close> (the 80-bit extended format of x86, 64 bits of significand), both to
    nearest, ties to even.
  \<^item> \<^verbatim>\<open>cov\<close> and \<^verbatim>\<open>pov\<close> are arrays of two cells indexed by the boolean
    \<^verbatim>\<open>side == 'B'\<close>; they are functions on \<open>bool\<close>.
  \<^item> The two \<^verbatim>\<open>unordered_map\<close>s are maps. Every \<^verbatim>\<open>shared_ptr<Order>\<close> is created in
    \<^verbatim>\<open>OnInsertOrderRequest\<close> and stored under one key only, so an order is held by value
    and a handler that mutates it through the pointer writes it back under that key.
  \<^item> \<^verbatim>\<open>replacePendingOrdersMap.find(id)->second\<close> in \<^verbatim>\<open>OnRequestAcknowledged\<close> is
    not guarded: when the key is absent the end iterator is dereferenced. The handler
    returns \<open>None\<close> there.
\<close>

subsection \<open>Machine numbers\<close>

type_synonym int32 = "32 word"

text \<open>
  A floating-point value. The two zeros are one value (no handler divides or reads a
  sign), and so are all NaNs.
\<close>

datatype fp = Finite real | PInf | NInf | NaN

text \<open>
  \<open>expo x\<close> is the binary exponent of \<open>x \<noteq> 0\<close>: \<open>2 ^ expo x \<le> \<bar>x\<bar> < 2 ^ (expo x + 1)\<close>
  (lemma \<open>expo_bounds\<close>), computed from the bit length of an integer.
\<close>

definition expo :: "real \<Rightarrow> int" where
  "expo x =
     (if 1 \<le> \<bar>x\<bar> then bitlen \<lfloor>\<bar>x\<bar>\<rfloor> - 1 else - bitlen (\<lceil>1 / \<bar>x\<bar>\<rceil> - 1))"

definition scale :: "real \<Rightarrow> int \<Rightarrow> real" where
  "scale x k = (if 0 \<le> k then x * 2 ^ nat k else x / 2 ^ nat (- k))"

definition roundHalfEven :: "real \<Rightarrow> int" where
  "roundHalfEven r =
     (let f = \<lfloor>r\<rfloor>; d = r - of_int f
      in if d < 1 / 2 then f else if 1 / 2 < d then f + 1 else if even f then f else f + 1)"

text \<open>
  Rounding of a real to the binary format with \<open>p\<close> bits of significand and largest
  exponent \<open>emax\<close>: to nearest, ties to even, gradual underflow below the exponent
  \<open>1 - emax\<close>, an infinity when the rounded magnitude reaches \<open>2 ^ (emax + 1)\<close>.
  A finite result is a multiple of \<open>2 ^ (e - p + 1)\<close>, \<open>e\<close> the exponent of \<open>x\<close>, at
  most half of that away from \<open>x\<close> (lemma \<open>rnd_nearest\<close>); an integer below \<open>2 ^ p\<close>
  is not rounded (lemma \<open>rnd_of_int\<close>).
\<close>

definition rnd :: "nat \<Rightarrow> int \<Rightarrow> real \<Rightarrow> fp" where
  "rnd p emax x =
     (if x = 0 then Finite 0
      else
        (let e = max (expo x) (1 - emax);
             n = roundHalfEven (scale x (int p - 1 - e))
         in if emax < e \<or> (e = emax \<and> \<bar>n\<bar> = 2 ^ p)
            then (if 0 < x then PInf else NInf)
            else Finite (scale (of_int n) (e - (int p - 1)))))"

definition roundDouble :: "real \<Rightarrow> fp" where
  "roundDouble x = rnd 53 1023 x"

definition roundLongDouble :: "real \<Rightarrow> fp" where
  "roundLongDouble x = rnd 64 16383 x"

text \<open>An \<^verbatim>\<open>int\<close> converts to \<^verbatim>\<open>double\<close> without rounding: it has 32 bits.\<close>

definition doubleOfInt :: "int32 \<Rightarrow> fp" where
  "doubleOfInt n = Finite (of_int (sint n))"

fun fneg :: "fp \<Rightarrow> fp" where
  "fneg (Finite x) = Finite (- x)"
| "fneg PInf = NInf"
| "fneg NInf = PInf"
| "fneg NaN = NaN"

text \<open>The product of two \<^verbatim>\<open>double\<close>s, a \<^verbatim>\<open>double\<close>.\<close>

fun dmul :: "fp \<Rightarrow> fp \<Rightarrow> fp" where
  "dmul NaN _ = NaN"
| "dmul _ NaN = NaN"
| "dmul (Finite x) (Finite y) = roundDouble (x * y)"
| "dmul (Finite x) PInf = (if x = 0 then NaN else if 0 < x then PInf else NInf)"
| "dmul (Finite x) NInf = (if x = 0 then NaN else if 0 < x then NInf else PInf)"
| "dmul PInf (Finite y) = (if y = 0 then NaN else if 0 < y then PInf else NInf)"
| "dmul NInf (Finite y) = (if y = 0 then NaN else if 0 < y then NInf else PInf)"
| "dmul PInf PInf = PInf"
| "dmul PInf NInf = NInf"
| "dmul NInf PInf = NInf"
| "dmul NInf NInf = PInf"

text \<open>
  The sum of two \<^verbatim>\<open>long double\<close>s, a \<^verbatim>\<open>long double\<close>. A \<^verbatim>\<open>double\<close> argument of
  \<^verbatim>\<open>updateCOV\<close> converts to \<^verbatim>\<open>long double\<close> without rounding.
\<close>

fun ldadd :: "fp \<Rightarrow> fp \<Rightarrow> fp" where
  "ldadd NaN _ = NaN"
| "ldadd _ NaN = NaN"
| "ldadd (Finite x) (Finite y) = roundLongDouble (x + y)"
| "ldadd (Finite x) PInf = PInf"
| "ldadd (Finite x) NInf = NInf"
| "ldadd PInf (Finite y) = PInf"
| "ldadd NInf (Finite y) = NInf"
| "ldadd PInf PInf = PInf"
| "ldadd PInf NInf = NaN"
| "ldadd NInf PInf = NaN"
| "ldadd NInf NInf = NInf"

subsection \<open>Order\<close>

datatype OrderState = NewPending | Active | Rejected | ReplacePending | PartiallyFilled | Completed

record Order =
  id' :: int32
  side :: char
  price :: fp
  totalQuantity :: int32
  remainingQuantity :: int32
  filledQuantity :: int32
  orderState :: OrderState

definition newOrder :: "int32 \<Rightarrow> char \<Rightarrow> fp \<Rightarrow> int32 \<Rightarrow> Order" where
  "newOrder i s p quantity =
     \<lparr>id' = i, side = s, price = p, totalQuantity = quantity,
      remainingQuantity = quantity, filledQuantity = 0, orderState = NewPending\<rparr>"

definition replaceOrder :: "Order \<Rightarrow> int32 \<Rightarrow> int32 \<Rightarrow> Order" where
  "replaceOrder ord newId deltaQuantity =
     ord\<lparr>id' := newId,
         totalQuantity := totalQuantity ord + deltaQuantity,
         remainingQuantity := remainingQuantity ord + deltaQuantity\<rparr>"

definition ChangeOrderState :: "Order \<Rightarrow> bool \<Rightarrow> Order" where
  "ChangeOrderState ord isPendingOrderUpdate =
     (if isPendingOrderUpdate \<or>
         (orderState ord \<noteq> NewPending \<and> orderState ord \<noteq> ReplacePending \<and>
          orderState ord \<noteq> Rejected)
      then
        (if filledQuantity ord = 0 then ord\<lparr>orderState := Active\<rparr>
         else if 0 < sint (filledQuantity ord) \<and> 0 < sint (remainingQuantity ord)
         then ord\<lparr>orderState := PartiallyFilled\<rparr>
         else ord\<lparr>orderState := Completed\<rparr>)
      else ord)"

subsection \<open>OrderManager\<close>

record OrderManager =
  nfq :: int32
  cov :: "bool \<Rightarrow> fp"
  pov :: "bool \<Rightarrow> fp"
  replacePendingOrdersMap :: "int32 \<rightharpoonup> int32 \<times> int32"
  orders :: "int32 \<rightharpoonup> Order"

text \<open>The member initialisers of the class: a manager that has seen no event.\<close>

definition newManager :: OrderManager where
  "newManager =
     \<lparr>nfq = 0, cov = (\<lambda>_. Finite 0), pov = (\<lambda>_. Finite 0),
      replacePendingOrdersMap = Map.empty, orders = Map.empty\<rparr>"

definition updateNFQ :: "OrderManager \<Rightarrow> char \<Rightarrow> int32 \<Rightarrow> OrderManager" where
  "updateNFQ m s quantityFilled =
     (if s = CHR ''B'' then m\<lparr>nfq := nfq m + quantityFilled\<rparr>
      else m\<lparr>nfq := nfq m - quantityFilled\<rparr>)"

definition updateCOV :: "OrderManager \<Rightarrow> char \<Rightarrow> fp \<Rightarrow> OrderManager" where
  "updateCOV m s v = m\<lparr>cov := (cov m)((s = CHR ''B'') := ldadd (cov m (s = CHR ''B'')) v)\<rparr>"

definition updatePOV :: "OrderManager \<Rightarrow> char \<Rightarrow> fp \<Rightarrow> OrderManager" where
  "updatePOV m s v = m\<lparr>pov := (pov m)((s = CHR ''B'') := ldadd (pov m (s = CHR ''B'')) v)\<rparr>"

definition OnInsertOrderRequest :: "OrderManager \<Rightarrow> int32 \<Rightarrow> char \<Rightarrow> fp \<Rightarrow> int32 \<Rightarrow> OrderManager" where
  "OnInsertOrderRequest m i s p quantity =
     (case orders m i of
        None \<Rightarrow> m\<lparr>orders := (orders m)(i \<mapsto> newOrder i s p quantity)\<rparr>
      | Some _ \<Rightarrow> m)"

definition OnReplaceOrderRequest :: "OrderManager \<Rightarrow> int32 \<Rightarrow> int32 \<Rightarrow> int32 \<Rightarrow> OrderManager" where
  "OnReplaceOrderRequest m oldId newId deltaQuantity =
     (case orders m oldId of
        Some orderPtr \<Rightarrow>
          if orderState orderPtr \<noteq> NewPending \<and> orderState orderPtr \<noteq> ReplacePending
          then
            updateCOV
              (m\<lparr>replacePendingOrdersMap :=
                   (replacePendingOrdersMap m)(oldId \<mapsto> (newId, deltaQuantity)),
                 orders := (orders m)(oldId \<mapsto> orderPtr\<lparr>orderState := ReplacePending\<rparr>)\<rparr>)
              (side orderPtr)
              (fneg (dmul (doubleOfInt (remainingQuantity orderPtr)) (price orderPtr)))
          else m
      | None \<Rightarrow> m)"

definition OnRequestAcknowledged :: "OrderManager \<Rightarrow> int32 \<Rightarrow> OrderManager option" where
  "OnRequestAcknowledged m i =
     (case orders m i of
        Some orderPtr \<Rightarrow>
          if orderState orderPtr = NewPending
          then
            (let ord = ChangeOrderState orderPtr True
             in Some (updateCOV (m\<lparr>orders := (orders m)(i \<mapsto> ord)\<rparr>) (side ord)
                        (dmul (price ord) (doubleOfInt (remainingQuantity ord)))))
          else if orderState orderPtr = ReplacePending
          then
            (case replacePendingOrdersMap m i of
               None \<Rightarrow> None
             | Some (newId, deltaQuantity) \<Rightarrow>
                 (let ord = ChangeOrderState (replaceOrder orderPtr newId deltaQuantity) True
                  in Some (updateCOV (m\<lparr>orders := (orders m)(i \<mapsto> ord)\<rparr>) (side ord)
                             (dmul (price ord) (doubleOfInt (remainingQuantity ord))))))
          else Some m
      | None \<Rightarrow> Some m)"

definition OnRequestRejected :: "OrderManager \<Rightarrow> int32 \<Rightarrow> OrderManager" where
  "OnRequestRejected m i =
     (case orders m i of
        Some orderPtr \<Rightarrow>
          if orderState orderPtr = NewPending
          then m\<lparr>orders := (orders m)(i \<mapsto> orderPtr\<lparr>remainingQuantity := 0, orderState := Rejected\<rparr>)\<rparr>
          else if orderState orderPtr = ReplacePending
          then
            (let ord = ChangeOrderState orderPtr True
             in updateCOV
                  (m\<lparr>replacePendingOrdersMap := (replacePendingOrdersMap m)(i := None),
                     orders := (orders m)(i \<mapsto> ord)\<rparr>)
                  (side ord) (dmul (price ord) (doubleOfInt (remainingQuantity ord))))
          else m
      | None \<Rightarrow> m)"

definition OnOrderFilled :: "OrderManager \<Rightarrow> int32 \<Rightarrow> int32 \<Rightarrow> OrderManager" where
  "OnOrderFilled m i quantityFilled =
     (case orders m i of
        Some orderPtr \<Rightarrow>
          if orderState orderPtr \<noteq> Rejected
          then
            (let ord = orderPtr\<lparr>filledQuantity := filledQuantity orderPtr + quantityFilled,
                                remainingQuantity := remainingQuantity orderPtr - quantityFilled\<rparr>;
                 m1 = updateNFQ m (side ord) quantityFilled;
                 m2 = updateCOV m1 (side ord) (fneg (dmul (price ord) (doubleOfInt quantityFilled)))
             in m2\<lparr>orders := (orders m2)(i \<mapsto> ChangeOrderState ord False)\<rparr>)
          else m
      | None \<Rightarrow> m)"

definition getNFQ :: "OrderManager \<Rightarrow> int32" where
  "getNFQ m = nfq m"

definition getCOV :: "OrderManager \<Rightarrow> char \<Rightarrow> fp" where
  "getCOV m s = cov m (s = CHR ''B'')"

definition getPOV :: "OrderManager \<Rightarrow> char \<Rightarrow> fp" where
  "getPOV m s = pov m (s = CHR ''B'')"

subsection \<open>Event sequences\<close>

text \<open>
  The five callbacks of \<^verbatim>\<open>Listener\<close> as one event type. A driver such as \<^verbatim>\<open>main\<close> calls
  the handlers one after the other on the same manager; \<open>run\<close> does so and stops
  with \<open>None\<close> at an acknowledgment that dereferences the end iterator.
\<close>

datatype Event =
    InsertOrderRequest int32 char fp int32
  | ReplaceOrderRequest int32 int32 int32
  | RequestAcknowledged int32
  | RequestRejected int32
  | OrderFilled int32 int32

fun step :: "OrderManager \<Rightarrow> Event \<Rightarrow> OrderManager option" where
  "step m (InsertOrderRequest i s p quantity) = Some (OnInsertOrderRequest m i s p quantity)"
| "step m (ReplaceOrderRequest oldId newId deltaQuantity) =
     Some (OnReplaceOrderRequest m oldId newId deltaQuantity)"
| "step m (RequestAcknowledged i) = OnRequestAcknowledged m i"
| "step m (RequestRejected i) = Some (OnRequestRejected m i)"
| "step m (OrderFilled i quantityFilled) = Some (OnOrderFilled m i quantityFilled)"

fun run :: "OrderManager \<Rightarrow> Event list \<Rightarrow> OrderManager option" where
  "run m [] = Some m"
| "run m (e # es) = (case step m e of None \<Rightarrow> None | Some m' \<Rightarrow> run m' es)"

text \<open>The calls of \<^verbatim>\<open>main\<close>, in order.\<close>

definition main_events :: "Event list" where
  "main_events =
     [InsertOrderRequest 100 CHR ''B'' (Finite 200) 10,
      RequestAcknowledged 100,
      OrderFilled 100 5,
      ReplaceOrderRequest 100 101 2,
      OrderFilled 100 5,
      OrderFilled 100 1,
      RequestAcknowledged 100]"

subsection \<open>Observations after an event sequence on a fresh manager\<close>

definition orderAfter :: "Event list \<Rightarrow> int32 \<Rightarrow> Order option" where
  "orderAfter es i = (case run newManager es of None \<Rightarrow> None | Some m \<Rightarrow> orders m i)"

definition pendingReplaceAfter :: "Event list \<Rightarrow> int32 \<Rightarrow> (int32 \<times> int32) option" where
  "pendingReplaceAfter es i =
     (case run newManager es of None \<Rightarrow> None | Some m \<Rightarrow> replacePendingOrdersMap m i)"

definition covAfter :: "Event list \<Rightarrow> char \<Rightarrow> fp option" where
  "covAfter es s = (case run newManager es of None \<Rightarrow> None | Some m \<Rightarrow> Some (getCOV m s))"

definition nfqAfter :: "Event list \<Rightarrow> int32 option" where
  "nfqAfter es = (case run newManager es of None \<Rightarrow> None | Some m \<Rightarrow> Some (getNFQ m))"

subsection \<open>The error taxonomy and the fills applied, in the specification's words\<close>

text \<open>
  The handlers report nothing: an error path is a branch that only carries a
  \<^verbatim>\<open>// ... log error\<close> comment. \<open>errorOf\<close> names the error of the specification's taxonomy
  that an event meets in a manager state, \<open>None\<close> when the event is accepted.
\<close>

datatype Error =
    DuplicateOrderId
  | OrderNotFound
  | InvalidStateForRequest
  | InvalidStateForConfirmation
  | FillOnRejectedOrder

fun errorOf :: "OrderManager \<Rightarrow> Event \<Rightarrow> Error option" where
  "errorOf m (InsertOrderRequest i s p quantity) =
     (case orders m i of None \<Rightarrow> None | Some _ \<Rightarrow> Some DuplicateOrderId)"
| "errorOf m (ReplaceOrderRequest oldId newId deltaQuantity) =
     (case orders m oldId of
        None \<Rightarrow> Some OrderNotFound
      | Some ord \<Rightarrow>
          if orderState ord = NewPending \<or> orderState ord = ReplacePending
          then Some InvalidStateForRequest else None)"
| "errorOf m (RequestAcknowledged i) =
     (case orders m i of
        None \<Rightarrow> Some OrderNotFound
      | Some ord \<Rightarrow>
          if orderState ord = NewPending \<or> orderState ord = ReplacePending
          then None else Some InvalidStateForConfirmation)"
| "errorOf m (RequestRejected i) =
     (case orders m i of
        None \<Rightarrow> Some OrderNotFound
      | Some ord \<Rightarrow>
          if orderState ord = NewPending \<or> orderState ord = ReplacePending
          then None else Some InvalidStateForConfirmation)"
| "errorOf m (OrderFilled i quantityFilled) =
     (case orders m i of
        None \<Rightarrow> Some OrderNotFound
      | Some ord \<Rightarrow> if orderState ord = Rejected then Some FillOnRejectedOrder else None)"

text \<open>
  A fill is applied when an order is indexed under its id and that order is not
  Rejected, whatever else its state is. It counts with its quantity for a bid
  (\<^verbatim>\<open>'B'\<close>) and with the negated quantity otherwise; every other event counts 0.
  The sum is the one of the integers, which does not wrap.
\<close>

fun signedFill :: "OrderManager \<Rightarrow> Event \<Rightarrow> int" where
  "signedFill m (OrderFilled i quantityFilled) =
     (case orders m i of
        None \<Rightarrow> 0
      | Some ord \<Rightarrow>
          if orderState ord = Rejected then 0
          else if side ord = CHR ''B'' then sint quantityFilled else - sint quantityFilled)"
| "signedFill m _ = 0"

fun signedFillSum :: "OrderManager \<Rightarrow> Event list \<Rightarrow> int" where
  "signedFillSum m [] = 0"
| "signedFillSum m (e # es) =
     signedFill m e + (case step m e of None \<Rightarrow> 0 | Some m' \<Rightarrow> signedFillSum m' es)"

subsection \<open>Invariants\<close>

definition pendingIndexed :: "OrderManager \<Rightarrow> bool" where
  "pendingIndexed m =
     (\<forall>k ord. orders m k = Some ord \<longrightarrow> orderState ord = ReplacePending \<longrightarrow>
        replacePendingOrdersMap m k \<noteq> None)"

definition rejectedEmpty :: "OrderManager \<Rightarrow> bool" where
  "rejectedEmpty m =
     (\<forall>k ord. orders m k = Some ord \<longrightarrow> orderState ord = Rejected \<longrightarrow>
        remainingQuantity ord = 0)"

section \<open>Properties\<close>

lemmas handler_defs =
  OnInsertOrderRequest_def OnReplaceOrderRequest_def OnRequestAcknowledged_def
  OnRequestRejected_def OnOrderFilled_def updateCOV_def updateNFQ_def ChangeOrderState_def
  replaceOrder_def newOrder_def

lemmas observation_defs =
  orderAfter_def pendingReplaceAfter_def covAfter_def nfqAfter_def getCOV_def getNFQ_def
  newManager_def main_events_def

lemmas fp_eval =
  rnd_def expo_def roundHalfEven_def scale_def compute_bitlen roundDouble_def
  roundLongDouble_def doubleOfInt_def

subsection \<open>The machine numbers\<close>

lemma expo_bounds:
  assumes "x \<noteq> 0"
  shows "2 powi expo x \<le> \<bar>x\<bar> \<and> \<bar>x\<bar> < 2 powi (expo x + 1)"
proof (cases "1 \<le> \<bar>x\<bar>")
  case True
  let ?f = "\<lfloor>\<bar>x\<bar>\<rfloor>"
  from True have f: "0 < ?f" by simp
  from bitlen_bounds [OF f]
  have lo: "2 ^ nat (bitlen ?f - 1) \<le> ?f" and hi: "?f < 2 ^ nat (bitlen ?f)" by simp_all
  from f have b: "1 \<le> bitlen ?f" by (simp add: bitlen_alt_def)
  have e: "expo x = bitlen ?f - 1" using True by (simp add: expo_def)
  have "(2::real) powi (bitlen ?f - 1) = 2 ^ nat (bitlen ?f - 1)"
    using b by (simp add: power_int_def)
  also have "\<dots> = of_int (2 ^ nat (bitlen ?f - 1))" by simp
  also have "\<dots> \<le> of_int ?f" using lo by (simp only: of_int_le_iff)
  also have "\<dots> \<le> \<bar>x\<bar>" by simp
  finally have 1: "2 powi expo x \<le> \<bar>x\<bar>" by (simp add: e)
  have "?f + 1 \<le> 2 ^ nat (bitlen ?f)" using hi by simp
  then have "(of_int (?f + 1) :: real) \<le> of_int (2 ^ nat (bitlen ?f))"
    by (simp only: of_int_le_iff)
  then have "(of_int ?f :: real) + 1 \<le> 2 ^ nat (bitlen ?f)" by simp
  moreover have "\<bar>x\<bar> < of_int ?f + 1" by linarith
  ultimately have "\<bar>x\<bar> < 2 ^ nat (bitlen ?f)" by linarith
  also have "\<dots> = 2 powi (expo x + 1)" using b by (simp add: e power_int_def)
  finally show ?thesis using 1 by simp
next
  case False
  let ?t = "1 / \<bar>x\<bar>"
  let ?N = "\<lceil>?t\<rceil>"
  let ?k = "bitlen (?N - 1)"
  from False assms have x: "0 < \<bar>x\<bar>" "\<bar>x\<bar> < 1" by simp_all
  then have t: "1 < ?t" by simp
  then have N: "0 < ?N - 1" by linarith
  from bitlen_bounds [OF N]
  have lo: "2 ^ nat (?k - 1) \<le> ?N - 1" and hi: "?N - 1 < 2 ^ nat ?k" by simp_all
  from N have k: "1 \<le> ?k" by (simp add: bitlen_alt_def)
  have e: "expo x = - ?k" using False by (simp add: expo_def)
  have "?N \<le> 2 ^ nat ?k" using hi by simp
  then have "(of_int ?N :: real) \<le> of_int (2 ^ nat ?k)" by (simp only: of_int_le_iff)
  then have "(of_int ?N :: real) \<le> 2 ^ nat ?k" by simp
  moreover have "?t \<le> of_int ?N" by (rule le_of_int_ceiling)
  ultimately have "?t \<le> 2 ^ nat ?k" by linarith
  then have "1 \<le> 2 ^ nat ?k * \<bar>x\<bar>" using x by (simp add: field_simps)
  then have "1 / 2 ^ nat ?k \<le> \<bar>x\<bar>" by (simp add: field_simps)
  moreover have "(2::real) powi (- ?k) = 1 / 2 ^ nat ?k"
    using k by (simp add: power_int_def field_simps)
  ultimately have 1: "2 powi expo x \<le> \<bar>x\<bar>" by (simp add: e)
  have "(of_int (2 ^ nat (?k - 1)) :: real) \<le> of_int (?N - 1)"
    using lo by (simp only: of_int_le_iff)
  then have "(2 ^ nat (?k - 1) :: real) \<le> of_int ?N - 1" by simp
  moreover have "of_int ?N - 1 < ?t" by linarith
  ultimately have "2 ^ nat (?k - 1) < ?t" by linarith
  then have "2 ^ nat (?k - 1) * \<bar>x\<bar> < 1" using x by (simp add: field_simps)
  then have "\<bar>x\<bar> < 1 / 2 ^ nat (?k - 1)" by (simp add: field_simps)
  moreover have "(2::real) powi (- ?k + 1) = 1 / 2 ^ nat (?k - 1)"
  proof (cases "?k = 1")
    case True
    then show ?thesis by simp
  next
    case False
    with k have "- ?k + 1 < 0" by simp
    moreover have "nat (- (- ?k + 1)) = nat (?k - 1)" by simp
    ultimately show ?thesis by (simp add: power_int_def field_simps)
  qed
  ultimately have "\<bar>x\<bar> < 2 powi (expo x + 1)" by (simp add: e)
  with 1 show ?thesis by simp
qed

lemma scale_powi: "scale x k = x * 2 powi k"
  by (simp add: scale_def power_int_def field_simps)

lemma roundHalfEven_nearest: "\<bar>of_int (roundHalfEven r) - r\<bar> \<le> 1 / 2"
proof -
  have "of_int \<lfloor>r\<rfloor> \<le> r" and "r < of_int \<lfloor>r\<rfloor> + 1" by linarith+
  then show ?thesis
    by (auto simp: roundHalfEven_def Let_def)
qed

lemma roundHalfEven_of_int: "roundHalfEven (of_int n) = n"
  by (simp add: roundHalfEven_def)

lemma rnd_nearest:
  assumes "rnd p emax x = Finite y"
  shows "\<bar>y - x\<bar> \<le> 2 powi (max (expo x) (1 - emax) - (int p - 1)) / 2"
proof (cases "x = 0")
  case True
  with assms show ?thesis by (simp add: rnd_def)
next
  case False
  let ?e = "max (expo x) (1 - emax)"
  let ?q = "(2::real) powi (?e - (int p - 1))"
  let ?n = "roundHalfEven (scale x (int p - 1 - ?e))"
  have q: "0 < ?q" by simp
  have sc: "scale x (int p - 1 - ?e) = x / ?q"
    by (simp add: scale_powi power_int_diff power_int_minus field_simps)
  from assms False have y: "y = of_int ?n * ?q"
    by (auto simp: rnd_def Let_def scale_powi split: if_splits)
  have "\<bar>of_int ?n - x / ?q\<bar> \<le> 1 / 2"
    using roundHalfEven_nearest [of "x / ?q"] by (simp only: sc)
  then have "\<bar>of_int ?n - x / ?q\<bar> * ?q \<le> 1 / 2 * ?q"
    using q by (intro mult_right_mono) simp_all
  moreover have "\<bar>a - x / b\<bar> * b = \<bar>a * b - x\<bar>" if "0 < b" for a b :: real
  proof -
    have "\<bar>a - x / b\<bar> * b = \<bar>(a - x / b) * b\<bar>"
      using that by (simp add: abs_mult)
    also have "(a - x / b) * b = a * b - x"
      using that by (simp add: field_simps)
    finally show ?thesis .
  qed
  ultimately have "\<bar>of_int ?n * ?q - x\<bar> \<le> 1 / 2 * ?q"
    using q by metis
  then show ?thesis by (simp add: y)
qed


lemma rnd_of_int:
  assumes "\<bar>n\<bar> < 2 ^ p" and "int p \<le> emax"
  shows "rnd p emax (of_int n) = Finite (of_int n)"
proof (cases "n = 0")
  case True
  then show ?thesis by (simp add: rnd_def)
next
  case False
  let ?x = "of_int n :: real"
  from False have x: "?x \<noteq> 0" by simp
  from False have "1 \<le> \<bar>n\<bar>" by simp
  then have "(1::real) \<le> of_int \<bar>n\<bar>" by (simp only: of_int_1_le_iff)
  then have x1: "1 \<le> \<bar>?x\<bar>" by simp
  from expo_bounds [OF x]
  have lo: "2 powi expo ?x \<le> \<bar>?x\<bar>" and hi: "\<bar>?x\<bar> < 2 powi (expo ?x + 1)" by simp_all
  have e0: "0 \<le> expo ?x"
  proof (rule ccontr)
    assume "\<not> 0 \<le> expo ?x"
    then have "expo ?x + 1 \<le> 0" by simp
    then have "(2::real) powi (expo ?x + 1) \<le> 2 powi 0"
      by (intro power_int_increasing) simp_all
    with hi x1 show False by simp
  qed
  have "(of_int \<bar>n\<bar> :: real) < of_int (2 ^ p)"
    using assms(1) by (simp only: of_int_less_iff)
  then have "\<bar>?x\<bar> < 2 ^ p" by simp
  with lo have "(2::real) powi expo ?x < 2 powi int p" by simp
  then have ep: "expo ?x < int p"
    by (rule power_int_le_imp_less_exp [rotated]) simp_all
  let ?s = "int p - 1 - expo ?x"
  have s0: "0 \<le> ?s" using ep by simp
  have m: "max (expo ?x) (1 - emax) = expo ?x" using e0 ep assms(2) by (simp add: max_def)
  have sc: "scale ?x ?s = of_int (n * 2 ^ nat ?s)"
    using s0 by (simp add: scale_def)
  have r: "roundHalfEven (scale ?x ?s) = n * 2 ^ nat ?s"
    unfolding sc by (rule roundHalfEven_of_int)
  have unscale: "scale (of_int (n * 2 ^ nat ?s)) (expo ?x - (int p - 1)) = ?x"
  proof (cases "?s = 0")
    case True
    then show ?thesis by (simp add: scale_def)
  next
    case False
    with s0 have "expo ?x - (int p - 1) < 0" by simp
    moreover have "nat (- (expo ?x - (int p - 1))) = nat ?s" by simp
    ultimately show ?thesis by (simp add: scale_def)
  qed
  have no: "\<not> emax < expo ?x" "expo ?x \<noteq> emax"
    using ep assms(2) by simp_all
  show ?thesis
    using x no unscale by (simp add: rnd_def Let_def m r del: of_int_mult of_int_power)
qed

lemma roundDouble_of_int: "\<bar>n\<bar> < 2 ^ 53 \<Longrightarrow> roundDouble (of_int n) = Finite (of_int n)"
  unfolding roundDouble_def by (rule rnd_of_int) simp_all

lemma roundLongDouble_of_int:
  "\<bar>n\<bar> < 2 ^ 64 \<Longrightarrow> roundLongDouble (of_int n) = Finite (of_int n)"
  unfolding roundLongDouble_def by (rule rnd_of_int) simp_all


subsection \<open>Every event sequence runs to the end\<close>

lemma pendingIndexed_newManager: "pendingIndexed newManager"
  by (simp add: pendingIndexed_def newManager_def)

lemma pendingIndexed_step:
  assumes "pendingIndexed m" and "step m e = Some m'"
  shows "pendingIndexed m'"
  using assms
  by (cases e) (auto simp: pendingIndexed_def handler_defs Let_def split: option.splits if_splits)

lemma step_defined:
  assumes "pendingIndexed m"
  shows "\<exists>m'. step m e = Some m'"
proof (cases e)
  case (RequestAcknowledged i)
  show ?thesis
  proof (cases "orders m i")
    case None
    then show ?thesis using RequestAcknowledged by (simp add: OnRequestAcknowledged_def)
  next
    case (Some orderPtr)
    show ?thesis
    proof (cases "orderState orderPtr = ReplacePending")
      case True
      with assms Some obtain r where "replacePendingOrdersMap m i = Some r"
        unfolding pendingIndexed_def by blast
      then show ?thesis using RequestAcknowledged Some True
        by (cases r) (simp add: OnRequestAcknowledged_def Let_def)
    next
      case False
      then show ?thesis using RequestAcknowledged Some
        by (simp add: OnRequestAcknowledged_def Let_def)
    qed
  qed
qed simp_all

lemma run_defined:
  "pendingIndexed m \<Longrightarrow> \<exists>m'. run m es = Some m' \<and> pendingIndexed m'"
proof (induction es arbitrary: m)
  case Nil
  then show ?case by simp
next
  case (Cons e es)
  from step_defined [OF Cons.prems] obtain m1 where s: "step m e = Some m1" by blast
  from pendingIndexed_step [OF Cons.prems s] have "pendingIndexed m1" .
  from Cons.IH [OF this] show ?case using s by simp
qed

lemma run_append:
  "run m (es @ fs) = (case run m es of None \<Rightarrow> None | Some m' \<Rightarrow> run m' fs)"
  by (induction es arbitrary: m) (auto split: option.splits)

subsection \<open>What a step leaves alone\<close>

lemma pov_step: "step m e = Some m' \<Longrightarrow> pov m' = pov m"
  by (cases e) (auto simp: handler_defs Let_def split: option.splits if_splits)

lemma pov_run: "run m es = Some m' \<Longrightarrow> pov m' = pov m"
  by (induction es arbitrary: m) (auto split: option.splits dest: pov_step)

lemma nfq_step: "step m e = Some m' \<Longrightarrow> nfq m' = nfq m + word_of_int (signedFill m e)"
  by (cases e) (auto simp: handler_defs Let_def split: option.splits if_splits)

lemma nfq_run: "run m es = Some m' \<Longrightarrow> nfq m' = nfq m + word_of_int (signedFillSum m es)"
  by (induction es arbitrary: m) (auto split: option.splits dest: nfq_step)

lemma dom_orders_acknowledged:
  "OnRequestAcknowledged m i = Some m' \<Longrightarrow> dom (orders m') = dom (orders m)"
  by (auto simp: OnRequestAcknowledged_def updateCOV_def Let_def
      split: option.splits if_splits prod.splits)

lemma pending_record_acknowledged:
  "OnRequestAcknowledged m i = Some m' \<Longrightarrow>
     replacePendingOrdersMap m' = replacePendingOrdersMap m"
  by (auto simp: OnRequestAcknowledged_def updateCOV_def Let_def
      split: option.splits if_splits prod.splits)

lemma pending_record_rejected:
  "orders m i = Some ord \<Longrightarrow> orderState ord = ReplacePending \<Longrightarrow>
     replacePendingOrdersMap (OnRequestRejected m i) i = None"
  by (simp add: OnRequestRejected_def updateCOV_def Let_def)

subsection \<open>Rejected orders\<close>

lemma rejectedEmpty_newManager: "rejectedEmpty newManager"
  by (simp add: rejectedEmpty_def newManager_def)

lemma rejectedEmpty_step:
  assumes "rejectedEmpty m" and "step m e = Some m'"
  shows "rejectedEmpty m'"
  using assms
  by (cases e) (auto simp: rejectedEmpty_def handler_defs Let_def split: option.splits if_splits)

lemma rejectedEmpty_run:
  "rejectedEmpty m \<Longrightarrow> run m es = Some m' \<Longrightarrow> rejectedEmpty m'"
  by (induction es arbitrary: m) (auto split: option.splits dest: rejectedEmpty_step)

lemma rejected_remaining_zero:
  assumes "run newManager es = Some m" and "orders m k = Some ord"
    and "orderState ord = Rejected"
  shows "remainingQuantity ord = 0"
  using rejectedEmpty_run [OF rejectedEmpty_newManager assms(1)] assms(2,3)
  by (simp add: rejectedEmpty_def)

section \<open>The claims\<close>

subsection \<open>C1: the pending-replace record after the confirmation\<close>

text \<open>
  C1 says that the pending-replace record keyed by the pre-replace id is gone after either
  confirmation. \<^verbatim>\<open>OnRequestRejected\<close> erases it; \<^verbatim>\<open>OnRequestAcknowledged\<close> reads it and
  leaves it in the index (\<open>pending_record_acknowledged\<close>, \<open>pending_record_rejected\<close>).
  After insert(100,'B',200,10), ack(100), replace(100,101,2), ack(100) the order is Active
  again and the index still holds (101, 2) under 100; with reject(100) as the last event
  the index holds nothing under 100.
\<close>

theorem ack_keeps_pending_replace_record:
  "pendingReplaceAfter
     [InsertOrderRequest 100 CHR ''B'' (Finite 200) 10, RequestAcknowledged 100,
      ReplaceOrderRequest 100 101 2, RequestAcknowledged 100] 100 = Some (101, 2) \<and>
   map_option orderState (orderAfter
     [InsertOrderRequest 100 CHR ''B'' (Finite 200) 10, RequestAcknowledged 100,
      ReplaceOrderRequest 100 101 2, RequestAcknowledged 100] 100) = Some Active \<and>
   run newManager
     [InsertOrderRequest 100 CHR ''B'' (Finite 200) 10, RequestAcknowledged 100,
      ReplaceOrderRequest 100 101 2, RequestRejected 100] \<noteq> None \<and>
   pendingReplaceAfter
     [InsertOrderRequest 100 CHR ''B'' (Finite 200) 10, RequestAcknowledged 100,
      ReplaceOrderRequest 100 101 2, RequestRejected 100] 100 = None"
  by (simp add: observation_defs handler_defs Let_def)

subsection \<open>C2: rejected orders\<close>

text \<open>
  C2 says that a Rejected order has remaining quantity 0 and that no later event adds
  confirmed order value for it. The first half holds in every state a fresh manager
  reaches (\<open>rejected_remaining_zero\<close>). The second half fails: the guard of
  \<^verbatim>\<open>OnReplaceOrderRequest\<close> excludes NewPending and ReplacePending only, so a replace
  request on a Rejected order is accepted, and its acknowledgment credits
  price * deltaQuantity. After insert(1,'B',10,5), reject(1) the order is Rejected with
  remaining quantity 0 and the bid value is 0; after replace(1,2,3), ack(1) the order is
  Active with remaining quantity 3 and the bid value is 30.
\<close>

theorem rejected_order_credited_after_replace:
  "map_option orderState
     (orderAfter [InsertOrderRequest 1 CHR ''B'' (Finite 10) 5, RequestRejected 1] 1) =
     Some Rejected \<and>
   map_option remainingQuantity
     (orderAfter [InsertOrderRequest 1 CHR ''B'' (Finite 10) 5, RequestRejected 1] 1) = Some 0 \<and>
   covAfter [InsertOrderRequest 1 CHR ''B'' (Finite 10) 5, RequestRejected 1] CHR ''B'' =
     Some (Finite 0) \<and>
   covAfter
     [InsertOrderRequest 1 CHR ''B'' (Finite 10) 5, RequestRejected 1,
      ReplaceOrderRequest 1 2 3, RequestAcknowledged 1] CHR ''B'' = Some (Finite 30) \<and>
   map_option remainingQuantity
     (orderAfter
        [InsertOrderRequest 1 CHR ''B'' (Finite 10) 5, RequestRejected 1,
         ReplaceOrderRequest 1 2 3, RequestAcknowledged 1] 1) = Some 3 \<and>
   map_option orderState
     (orderAfter
        [InsertOrderRequest 1 CHR ''B'' (Finite 10) 5, RequestRejected 1,
         ReplaceOrderRequest 1 2 3, RequestAcknowledged 1] 1) = Some Active"
  by (simp add: observation_defs handler_defs fp_eval Let_def)

subsection \<open>C3: a replace request and its acknowledgment\<close>

text \<open>
  C3 says that a replace request (oldId, newId, D) and its acknowledgment leave the
  confirmed order value of the order's side exactly P * D above its value before the
  request. The acknowledgment adds the \<^verbatim>\<open>double\<close> product P * (R + D), which is rounded
  when it needs more than 53 bits. For a bid of price 2^52 + 1 (a \<^verbatim>\<open>double\<close>) and
  quantity 1, acknowledged, the bid value is 4503599627370497; after replace(1,2,2) and
  ack(1) the product 3 * (2^52 + 1) = 13510798882111491 is rounded to 13510798882111492,
  and that is the bid value, one above 4503599627370497 + (2^52 + 1) * 2.
\<close>

theorem replace_ack_cycle_rounded:
  "roundDouble 4503599627370497 = Finite 4503599627370497 \<and>
   map_option orderState
     (orderAfter
        [InsertOrderRequest 1 CHR ''B'' (Finite 4503599627370497) 1,
         RequestAcknowledged 1] 1) = Some Active \<and>
   covAfter
     [InsertOrderRequest 1 CHR ''B'' (Finite 4503599627370497) 1,
      RequestAcknowledged 1] CHR ''B'' = Some (Finite 4503599627370497) \<and>
   covAfter
     [InsertOrderRequest 1 CHR ''B'' (Finite 4503599627370497) 1,
      RequestAcknowledged 1, ReplaceOrderRequest 1 2 2, RequestAcknowledged 1] CHR ''B'' =
     Some (Finite 13510798882111492) \<and>
   (13510798882111492 :: real) \<noteq> 4503599627370497 + 4503599627370497 * 2"
  by (simp add: observation_defs handler_defs fp_eval Let_def)

text \<open>
  The sum R + D is one of \<^verbatim>\<open>int\<close>s and wraps as well: for a bid of price 1 and quantity
  2147483647, acknowledged, replace(1,2,1) and ack(1) take the bid value from 2147483647
  to -2147483648.
\<close>

lemma replace_ack_cycle_wrapped:
  "covAfter
     [InsertOrderRequest 1 CHR ''B'' (Finite 1) 2147483647,
      RequestAcknowledged 1] CHR ''B'' = Some (Finite 2147483647) \<and>
   covAfter
     [InsertOrderRequest 1 CHR ''B'' (Finite 1) 2147483647,
      RequestAcknowledged 1, ReplaceOrderRequest 1 2 1, RequestAcknowledged 1] CHR ''B'' =
     Some (Finite (- 2147483648))"
  by (simp add: observation_defs handler_defs fp_eval Let_def)

text \<open>
  C3, amended: for an order indexed under oldId with finite price P, side S and remaining
  quantity R whose state is neither NewPending nor ReplacePending, and a confirmed order
  value c of S, the replace request (oldId, newId, D) subtracts P * R, the acknowledgment
  of oldId that follows it is served and adds P * (R + D), and the value of S ends at
  c + P * D, provided that R + D does not overflow \<^verbatim>\<open>int\<close> and that nothing is rounded:
  the two \<^verbatim>\<open>double\<close> products R * P and P * (R + D) and the two \<^verbatim>\<open>long double\<close> sums
  c - R * P and c + P * D are exact.
\<close>

theorem replace_ack_cycle_cov:
  assumes "orders m oldId = Some ord"
    and "orderState ord \<noteq> NewPending" and "orderState ord \<noteq> ReplacePending"
    and "price ord = Finite P" and "getCOV m (side ord) = Finite c"
    and "sint (remainingQuantity ord + deltaQuantity) =
           sint (remainingQuantity ord) + sint deltaQuantity"
    and "roundDouble (of_int (sint (remainingQuantity ord)) * P) =
           Finite (of_int (sint (remainingQuantity ord)) * P)"
    and "roundLongDouble (c - of_int (sint (remainingQuantity ord)) * P) =
           Finite (c - of_int (sint (remainingQuantity ord)) * P)"
    and "roundDouble (P * of_int (sint (remainingQuantity ord) + sint deltaQuantity)) =
           Finite (P * of_int (sint (remainingQuantity ord) + sint deltaQuantity))"
    and "roundLongDouble (c + P * of_int (sint deltaQuantity)) =
           Finite (c + P * of_int (sint deltaQuantity))"
  shows "\<exists>m'. OnRequestAcknowledged (OnReplaceOrderRequest m oldId newId deltaQuantity) oldId = Some m' \<and>
     getCOV (OnReplaceOrderRequest m oldId newId deltaQuantity) (side ord) =
       Finite (c - of_int (sint (remainingQuantity ord)) * P) \<and>
     getCOV m' (side ord) = Finite (c + P * of_int (sint deltaQuantity))"
proof -
  let ?R = "of_int (sint (remainingQuantity ord)) :: real"
  let ?D = "of_int (sint deltaQuantity) :: real"
  let ?m1 = "OnReplaceOrderRequest m oldId newId deltaQuantity"
  let ?ord1 = "ord\<lparr>orderState := ReplacePending\<rparr>"
  let ?ord2 = "ChangeOrderState (replaceOrder ?ord1 newId deltaQuantity) True"
  have c0: "cov m (side ord = CHR ''B'') = Finite c"
    using assms(5) by (simp add: getCOV_def)
  have x1: "fneg (dmul (doubleOfInt (remainingQuantity ord)) (price ord)) = Finite (- (?R * P))"
    using assms(4,7) by (simp add: doubleOfInt_def)
  have a1: "ldadd (Finite c) (Finite (- (?R * P))) = Finite (c - ?R * P)"
    using assms(8) by simp
  have m1: "?m1 =
      m\<lparr>replacePendingOrdersMap := (replacePendingOrdersMap m)(oldId \<mapsto> (newId, deltaQuantity)),
        orders := (orders m)(oldId \<mapsto> ?ord1),
        cov := (cov m)((side ord = CHR ''B'') := Finite (c - ?R * P))\<rparr>"
    using assms(1-3) x1 a1 by (simp add: OnReplaceOrderRequest_def updateCOV_def c0)
  have c1: "getCOV ?m1 (side ord) = Finite (c - ?R * P)"
    by (simp add: m1 getCOV_def)
  have q: "remainingQuantity ?ord2 = remainingQuantity ord + deltaQuantity"
    and p: "price ?ord2 = Finite P" and sd: "side ?ord2 = side ord"
    using assms(4) by (simp_all add: ChangeOrderState_def replaceOrder_def)
  have "(of_int (sint (remainingQuantity ord + deltaQuantity)) :: real) = ?R + ?D"
    using assms(6) by simp
  then have "dmul (Finite P) (doubleOfInt (remainingQuantity ord + deltaQuantity)) =
      roundDouble (P * (?R + ?D))"
    by (simp add: doubleOfInt_def)
  also have "\<dots> = Finite (P * (?R + ?D))"
    using assms(9) by simp
  finally have x2: "dmul (price ?ord2) (doubleOfInt (remainingQuantity ?ord2)) =
      Finite (P * (?R + ?D))"
    by (simp add: q p)
  have e: "c - ?R * P + P * (?R + ?D) = c + P * ?D"
    by (simp add: algebra_simps)
  have a2: "ldadd (Finite (c - ?R * P)) (Finite (P * (?R + ?D))) = Finite (c + P * ?D)"
    unfolding ldadd.simps e by (rule assms(10))
  have "OnRequestAcknowledged ?m1 oldId =
      Some (updateCOV (?m1\<lparr>orders := (orders ?m1)(oldId \<mapsto> ?ord2)\<rparr>) (side ?ord2)
              (dmul (price ?ord2) (doubleOfInt (remainingQuantity ?ord2))))"
    by (simp add: m1 OnRequestAcknowledged_def Let_def)
  then obtain m' where m': "OnRequestAcknowledged ?m1 oldId = Some m'"
    and c2: "getCOV m' (side ord) =
      ldadd (cov ?m1 (side ord = CHR ''B'')) (Finite (P * (?R + ?D)))"
    using x2 by (simp add: updateCOV_def getCOV_def sd)
  from c2 a2 have "getCOV m' (side ord) = Finite (c + P * ?D)"
    by (simp add: m1)
  with m' c1 show ?thesis by blast
qed

text \<open>
  At the state of \<^verbatim>\<open>main\<close> after its first fill (order 100: bid, price 200, remaining 5,
  PartiallyFilled, bid value 1000), replace(100,101,2) takes the bid value to 0 and
  ack(100) to 1400 = 1000 + 200 * 2; nothing overflows and nothing is rounded.
\<close>

theorem replace_ack_cycle_cov_witness:
  "\<exists>m ord m'. run newManager (take 3 main_events) = Some m \<and>
     orders m 100 = Some ord \<and> orderState ord = PartiallyFilled \<and>
     side ord = CHR ''B'' \<and> price ord = Finite 200 \<and> remainingQuantity ord = 5 \<and>
     getCOV m CHR ''B'' = Finite 1000 \<and>
     getCOV (OnReplaceOrderRequest m 100 101 2) CHR ''B'' = Finite 0 \<and>
     OnRequestAcknowledged (OnReplaceOrderRequest m 100 101 2) 100 = Some m' \<and>
     getCOV m' CHR ''B'' = Finite (1000 + 200 * 2)"
proof -
  from run_defined [OF pendingIndexed_newManager] obtain m
    where r: "run newManager (take 3 main_events) = Some m"
    by blast
  obtain ord where o: "orders m 100 = Some ord"
    and st: "orderState ord = PartiallyFilled"
    and f: "side ord = CHR ''B''" "price ord = Finite 200" "remainingQuantity ord = 5"
    using r by (auto simp: observation_defs handler_defs Let_def)
  have c: "getCOV m (side ord) = Finite 1000"
    using r f(1) by (auto simp: observation_defs handler_defs fp_eval Let_def)
  from st have n: "orderState ord \<noteq> NewPending" "orderState ord \<noteq> ReplacePending"
    by simp_all
  have h1: "sint (remainingQuantity ord + 2) = sint (remainingQuantity ord) + sint (2 :: int32)"
    by (simp add: f)
  have h2: "roundDouble (of_int (sint (remainingQuantity ord)) * 200) =
      Finite (of_int (sint (remainingQuantity ord)) * 200)"
    by (simp add: f fp_eval)
  have h3: "roundLongDouble (1000 - of_int (sint (remainingQuantity ord)) * 200) =
      Finite (1000 - of_int (sint (remainingQuantity ord)) * 200)"
    by (simp add: f fp_eval)
  have h4: "roundDouble (200 * of_int (sint (remainingQuantity ord) + sint (2 :: int32))) =
      Finite (200 * of_int (sint (remainingQuantity ord) + sint (2 :: int32)))"
    by (simp add: f fp_eval)
  have h5: "roundLongDouble (1000 + 200 * of_int (sint (2 :: int32))) =
      Finite (1000 + 200 * of_int (sint (2 :: int32)))"
    by (simp add: fp_eval)
  from replace_ack_cycle_cov [OF o n f(2) c h1 h2 h3 h4 h5, of 101] f c r o st show ?thesis
    by auto
qed

subsection \<open>C4: a replace request and its rejection\<close>




subsection \<open>C5: net filled quantity\<close>

text \<open>
  C5 says that \<^verbatim>\<open>getNFQ\<close> returns the signed sum of the quantities of the fills applied.
  \<^verbatim>\<open>nfq\<close> is an \<^verbatim>\<open>int\<close>: after insert(1,'B',1,10), fill(1,2147483647), fill(1,1) the sum
  is 2147483648 and \<^verbatim>\<open>getNFQ\<close> returns -2147483648.
\<close>

theorem nfq_wraps:
  "map_option sint
     (nfqAfter
        [InsertOrderRequest 1 CHR ''B'' (Finite 1) 10, OrderFilled 1 2147483647,
         OrderFilled 1 1]) = Some (- 2147483648) \<and>
   signedFillSum newManager
     [InsertOrderRequest 1 CHR ''B'' (Finite 1) 10, OrderFilled 1 2147483647,
      OrderFilled 1 1] = 2147483648 \<and>
   map_option sint
     (nfqAfter
        [InsertOrderRequest 1 CHR ''B'' (Finite 1) 10, OrderFilled 1 2147483647,
         OrderFilled 1 1]) \<noteq>
   Some (signedFillSum newManager
     [InsertOrderRequest 1 CHR ''B'' (Finite 1) 10, OrderFilled 1 2147483647,
      OrderFilled 1 1])"
  by (simp add: observation_defs handler_defs fp_eval Let_def)

text \<open>
  C5, amended: every sequence of events runs to its end on a fresh manager, and \<^verbatim>\<open>getNFQ\<close>
  then returns the signed sum of the quantities of the fills that were applied (a fill
  counts when its order is indexed and not Rejected, pending or not, positively for a bid
  and negatively otherwise) reduced to the 32 bits of an \<^verbatim>\<open>int\<close>; it returns the sum
  itself whenever the sum lies between -2^31 and 2^31 - 1.
\<close>

theorem nfq_signed_fill_sum:
  "\<exists>m. run newManager es = Some m \<and>
     getNFQ m = word_of_int (signedFillSum newManager es) \<and>
     (- (2 ^ 31) \<le> signedFillSum newManager es \<and> signedFillSum newManager es < 2 ^ 31 \<longrightarrow>
        sint (getNFQ m) = signedFillSum newManager es)"
proof -
  from run_defined [OF pendingIndexed_newManager] obtain m where r: "run newManager es = Some m"
    by blast
  from nfq_run [OF r] have n: "getNFQ m = word_of_int (signedFillSum newManager es)"
    by (simp add: getNFQ_def newManager_def)
  have "sint (getNFQ m) = signedFillSum newManager es"
    if "- (2 ^ 31) \<le> signedFillSum newManager es" and "signedFillSum newManager es < 2 ^ 31"
    unfolding n using that by (simp add: sint_sbintrunc' signed_take_bit_int_eq_self)
  with r n show ?thesis by blast
qed

text \<open>Along the calls of \<^verbatim>\<open>main\<close> the sum is 5 + 5 + 1 = 11, and so is \<^verbatim>\<open>getNFQ\<close>.\<close>

theorem nfq_signed_fill_sum_witness:
  "\<exists>m. run newManager main_events = Some m \<and>
     signedFillSum newManager main_events = 11 \<and> getNFQ m = 11 \<and> sint (getNFQ m) = 11"
proof -
  have s: "signedFillSum newManager main_events = 11"
    by (simp add: observation_defs handler_defs fp_eval Let_def)
  from nfq_signed_fill_sum [of main_events] s show ?thesis
    by auto
qed

subsection \<open>C6: the scenario of main\<close>

text \<open>
  C6 lists what is observed along the calls of \<^verbatim>\<open>main\<close>. One observation is not the
  code's: after the two fills that follow the replace request the remaining quantity is
  5 - 5 - 1 = -1, not 1, because the delta of the pending replace is added by the
  acknowledgment only.
\<close>

theorem main_scenario_remaining_after_fills:
  "map_option remainingQuantity (orderAfter (take 6 main_events) 100) \<noteq> Some 1"
  by (simp add: observation_defs handler_defs Let_def)

text \<open>
  C6, amended: after the first fill the order is PartiallyFilled and the bid value is 1000;
  after the replace request the bid value is 0; after the two fills that follow, the
  remaining quantity is -1, the net filled quantity is 11 and the bid value is -1200; the
  final acknowledgment applies the replace: the order's id is 101, its remaining quantity
  is 1, and the bid value goes up by 200 * 1 to -1000.
\<close>

theorem main_scenario_observations:
  "map_option orderState (orderAfter (take 3 main_events) 100) = Some PartiallyFilled \<and>
   covAfter (take 3 main_events) CHR ''B'' = Some (Finite 1000) \<and>
   covAfter (take 4 main_events) CHR ''B'' = Some (Finite 0) \<and>
   map_option remainingQuantity (orderAfter (take 6 main_events) 100) = Some (- 1) \<and>
   nfqAfter (take 6 main_events) = Some 11 \<and>
   covAfter (take 6 main_events) CHR ''B'' = Some (Finite (- 1200)) \<and>
   map_option id' (orderAfter main_events 100) = Some 101 \<and>
   map_option remainingQuantity (orderAfter main_events 100) = Some 1 \<and>
   covAfter main_events CHR ''B'' = Some (Finite (- 1200 + 200 * 1))"
  by (simp add: observation_defs handler_defs fp_eval Let_def)

subsection \<open>C7: the new id after an acknowledged replace\<close>

text \<open>
  C7 says that after the acknowledgment of a replace the order is found under its new id.
  \<^verbatim>\<open>replaceOrder\<close> writes the new id into the order, but \<^verbatim>\<open>OnRequestAcknowledged\<close> leaves
  the keys of \<^verbatim>\<open>orders\<close> as they are (\<open>dom_orders_acknowledged\<close>). After the calls of
  \<^verbatim>\<open>main\<close> the order with id 101 is indexed under 100 and nothing is indexed under 101: a
  fill or a replace request addressed to 101 changes nothing, a fill addressed to 100 is
  applied.
\<close>

theorem acknowledged_replace_not_rekeyed:
  "map_option id' (orderAfter main_events 100) = Some 101 \<and>
   orderAfter main_events 101 = None \<and>
   run newManager main_events \<noteq> None \<and>
   run newManager (main_events @ [OrderFilled 101 1]) = run newManager main_events \<and>
   run newManager (main_events @ [ReplaceOrderRequest 101 102 1]) = run newManager main_events \<and>
   map_option filledQuantity (orderAfter (main_events @ [OrderFilled 100 1]) 100) = Some 12"
  by (simp add: observation_defs handler_defs Let_def)

subsection \<open>C8: pending order value\<close>

text \<open>
  C8: no handler calls \<^verbatim>\<open>updatePOV\<close>; every sequence of events runs to its end on a fresh
  manager, and \<^verbatim>\<open>getPOV\<close> then returns 0 for every side.
\<close>

theorem pov_never_populated:
  "\<exists>m. run newManager es = Some m \<and> (\<forall>s. getPOV m s = Finite 0)"
proof -
  from run_defined [OF pendingIndexed_newManager] obtain m where r: "run newManager es = Some m"
    by blast
  from pov_run [OF r] have "pov m = (\<lambda>_. Finite 0)" by (simp add: newManager_def)
  then show ?thesis using r by (simp add: getPOV_def)
qed

subsection \<open>C9: error paths\<close>

text \<open>
  C9: in every manager state, an event that meets an error (a duplicate insert id, an
  order that is not found, a replace request on a pending order, a confirmation for an
  order that is not pending, a fill on a Rejected order) is handled and leaves the whole
  manager as it was: both indexes, every order and every aggregate.
\<close>

theorem error_paths_unchanged: "errorOf m e = Some err \<Longrightarrow> step m e = Some m"
  by (cases e) (auto simp: handler_defs split: option.splits if_splits)

text \<open>
  With order 1 NewPending and order 2 Rejected, one event for each error of the taxonomy.
\<close>

theorem error_paths_unchanged_witness:
  "\<exists>m. run newManager
          [InsertOrderRequest 1 CHR ''B'' (Finite 10) 5, InsertOrderRequest 2 CHR ''O'' (Finite 20) 4,
           RequestRejected 2] = Some m \<and>
     errorOf m (InsertOrderRequest 1 CHR ''O'' (Finite 7) 3) = Some DuplicateOrderId \<and>
     step m (InsertOrderRequest 1 CHR ''O'' (Finite 7) 3) = Some m \<and>
     errorOf m (ReplaceOrderRequest 3 4 1) = Some OrderNotFound \<and>
     step m (ReplaceOrderRequest 3 4 1) = Some m \<and>
     errorOf m (ReplaceOrderRequest 1 4 1) = Some InvalidStateForRequest \<and>
     step m (ReplaceOrderRequest 1 4 1) = Some m \<and>
     errorOf m (RequestAcknowledged 2) = Some InvalidStateForConfirmation \<and>
     step m (RequestAcknowledged 2) = Some m \<and>
     errorOf m (RequestRejected 3) = Some OrderNotFound \<and>
     step m (RequestRejected 3) = Some m \<and>
     errorOf m (OrderFilled 2 1) = Some FillOnRejectedOrder \<and>
     step m (OrderFilled 2 1) = Some m"
proof -
  from run_defined [OF pendingIndexed_newManager] obtain m where r:
    "run newManager
       [InsertOrderRequest 1 CHR ''B'' (Finite 10) 5, InsertOrderRequest 2 CHR ''O'' (Finite 20) 4,
        RequestRejected 2] = Some m"
    by blast
  have e1: "errorOf m (InsertOrderRequest 1 CHR ''O'' (Finite 7) 3) = Some DuplicateOrderId"
    using r by (auto simp: observation_defs handler_defs)
  have e2: "errorOf m (ReplaceOrderRequest 3 4 1) = Some OrderNotFound"
    using r by (auto simp: observation_defs handler_defs)
  have e3: "errorOf m (ReplaceOrderRequest 1 4 1) = Some InvalidStateForRequest"
    using r by (auto simp: observation_defs handler_defs)
  have e4: "errorOf m (RequestAcknowledged 2) = Some InvalidStateForConfirmation"
    using r by (auto simp: observation_defs handler_defs)
  have e5: "errorOf m (RequestRejected 3) = Some OrderNotFound"
    using r by (auto simp: observation_defs handler_defs)
  have e6: "errorOf m (OrderFilled 2 1) = Some FillOnRejectedOrder"
    using r by (auto simp: observation_defs handler_defs)
  from r e1 e2 e3 e4 e5 e6
    error_paths_unchanged [OF e1] error_paths_unchanged [OF e2] error_paths_unchanged [OF e3]
    error_paths_unchanged [OF e4] error_paths_unchanged [OF e5] error_paths_unchanged [OF e6]
  show ?thesis by blast
qed

subsection \<open>C10: the lookup of the pending-replace record\<close>

text \<open>
  C10: every sequence of events runs to its end on a fresh manager, and in the state it
  reaches every order in state ReplacePending has a pending-replace record under the key
  that indexes the order; so \<^verbatim>\<open>replacePendingOrdersMap.find(id)->second\<close> in
  \<^verbatim>\<open>OnRequestAcknowledged\<close> never dereferences the end iterator, whatever id is
  acknowledged next.
\<close>

theorem replace_pending_is_indexed:
  "\<exists>m. run newManager es = Some m \<and>
     (\<forall>k ord. orders m k = Some ord \<longrightarrow> orderState ord = ReplacePending \<longrightarrow>
        replacePendingOrdersMap m k \<noteq> None) \<and>
     (\<forall>i. OnRequestAcknowledged m i \<noteq> None)"
proof -
  from run_defined [OF pendingIndexed_newManager] obtain m
    where r: "run newManager es = Some m" and p: "pendingIndexed m"
    by blast
  have "OnRequestAcknowledged m i \<noteq> None" for i
    using step_defined [OF p, of "RequestAcknowledged i"] by auto
  then show ?thesis using r p by (auto simp: pendingIndexed_def)
qed

text \<open>
  After the first four calls of \<^verbatim>\<open>main\<close>, order 100 is in state ReplacePending, its record
  is in the index and the acknowledgment of 100 is served.
\<close>

theorem replace_pending_is_indexed_witness:
  "\<exists>m ord. run newManager (take 4 main_events) = Some m \<and>
     orders m 100 = Some ord \<and> orderState ord = ReplacePending \<and>
     replacePendingOrdersMap m 100 \<noteq> None \<and> OnRequestAcknowledged m 100 \<noteq> None"
proof -
  from replace_pending_is_indexed [of "take 4 main_events"] obtain m
    where r: "run newManager (take 4 main_events) = Some m"
      and p: "\<forall>k ord. orders m k = Some ord \<longrightarrow> orderState ord = ReplacePending \<longrightarrow>
               replacePendingOrdersMap m k \<noteq> None"
      and a: "\<forall>i. OnRequestAcknowledged m i \<noteq> None"
    by blast
  obtain ord where o: "orders m 100 = Some ord" and st: "orderState ord = ReplacePending"
    using r by (auto simp: observation_defs handler_defs Let_def)
  from p o st have "replacePendingOrdersMap m 100 \<noteq> None" by blast
  with r o st a show ?thesis by blast
qed

end
